theory Spec2Isabelle
  imports Main
begin

section \<open>Data model of src/components/TicTacToe.tsx\<close>

text \<open>
  \<^verbatim>\<open>type Player = "X" | "O"\<close>. The constructors are prefixed because \<open>O\<close> is the
  composition of relations in HOL.
\<close>

datatype Player = PlayerX | PlayerO

text \<open>
  What an element read of a JavaScript array can give in this program: \<^verbatim>\<open>null\<close>, a
  \<^verbatim>\<open>Player\<close>, or \<^verbatim>\<open>undefined\<close> (an index past the end, or a hole left by a write
  past the end). The declared type \<^verbatim>\<open>Board = (Player | null)[]\<close> has no
  \<^verbatim>\<open>undefined\<close> element: that is the predicate \<open>typed\<close>.
\<close>

datatype Cell = Null | Undefined | Mark Player

type_synonym Board = "Cell list"

definition typed :: "Board \<Rightarrow> bool" where
  "typed board = (Undefined \<notin> set board)"

text \<open>\<^verbatim>\<open>board[i]\<close>: reading past the end gives \<^verbatim>\<open>undefined\<close>.\<close>

definition get :: "Board \<Rightarrow> nat \<Rightarrow> Cell" where
  "get board i = (if i < length board then board ! i else Undefined)"

text \<open>
  \<^verbatim>\<open>board[i] = v\<close>: writing past the end extends the array; the cells between the old
  end and \<open>i\<close> are holes, which read as \<^verbatim>\<open>undefined\<close>.
\<close>

definition put :: "Board \<Rightarrow> nat \<Rightarrow> Cell \<Rightarrow> Board" where
  "put board i v =
     (if i < length board then board[i := v]
      else board @ replicate (i - length board) Undefined @ [v])"

text \<open>\<^verbatim>\<open>board.every(cell => cell !== null)\<close>\<close>

definition everyNonNull :: "Board \<Rightarrow> bool" where
  "everyNonNull board = list_all (\<lambda>cell. cell \<noteq> Null) board"

text \<open>\<^verbatim>\<open>Array(9).fill(null)\<close>\<close>

definition emptyBoard :: Board where
  "emptyBoard = replicate 9 Null"

section \<open>calculateWinner\<close>

definition lines :: "(nat \<times> nat \<times> nat) list" where
  "lines = [(0, 1, 2), (3, 4, 5), (6, 7, 8),
            (0, 3, 6), (1, 4, 7), (2, 5, 8),
            (0, 4, 8), (2, 4, 6)]"

text \<open>
  The test \<^verbatim>\<open>board[a] && board[a] === board[b] && board[a] === board[c]\<close>: only a
  \<^verbatim>\<open>Player\<close> is truthy.
\<close>

definition lineMatch :: "Board \<Rightarrow> nat \<times> nat \<times> nat \<Rightarrow> Player option" where
  "lineMatch board line =
     (case line of (a, b, c) \<Rightarrow>
        (case get board a of
           Mark p \<Rightarrow> if get board a = get board b \<and> get board a = get board c
                     then Some p else None
         | _ \<Rightarrow> None))"

text \<open>The \<^verbatim>\<open>for (const line of lines)\<close> loop, returning at the first match.\<close>

fun winnerLoop :: "Board \<Rightarrow> (nat \<times> nat \<times> nat) list \<Rightarrow> Player option" where
  "winnerLoop board [] = None"
| "winnerLoop board (line # rest) =
     (case lineMatch board line of
        Some p \<Rightarrow> Some p
      | None \<Rightarrow> winnerLoop board rest)"

definition calculateWinner :: "Board \<Rightarrow> Player option" where
  "calculateWinner board = winnerLoop board lines"

section \<open>minimax\<close>

text \<open>The value of \<^verbatim>\<open>bestScore\<close>: \<^verbatim>\<open>-Infinity\<close>, \<^verbatim>\<open>Infinity\<close> or a returned score.\<close>

datatype Num = NegInfinity | Fin int | PosInfinity

fun gt :: "int \<Rightarrow> Num \<Rightarrow> bool" where
  "gt s NegInfinity = True"
| "gt s (Fin t) = (s > t)"
| "gt s PosInfinity = False"

fun lt :: "int \<Rightarrow> Num \<Rightarrow> bool" where
  "lt s NegInfinity = False"
| "lt s (Fin t) = (s < t)"
| "lt s PosInfinity = True"

text \<open>
  \<open>minimax\<close> mutates the caller's array and undoes each placement, so the model threads
  the board: it returns the number the source returns together with the board as the
  call leaves it. \<open>minimaxLoop\<close> is the \<^verbatim>\<open>for\<close> loop from index \<open>i\<close> on, with the current
  \<^verbatim>\<open>bestScore\<close> and \<^verbatim>\<open>bestMove\<close>; it re-reads \<^verbatim>\<open>board.length\<close> at every iteration.
\<close>

function (domintros) minimax :: "Board \<Rightarrow> bool \<Rightarrow> int \<times> Board"
  and minimaxLoop :: "Board \<Rightarrow> bool \<Rightarrow> nat \<Rightarrow> Num \<Rightarrow> int \<Rightarrow> int \<times> Board"
where
  "minimax board isMaximizing =
     (case calculateWinner board of
        Some PlayerX \<Rightarrow> (- 10, board)
      | Some PlayerO \<Rightarrow> (10, board)
      | None \<Rightarrow>
          if everyNonNull board then (0, board)
          else minimaxLoop board isMaximizing 0
                 (if isMaximizing then NegInfinity else PosInfinity) (- 1))"
| "minimaxLoop board isMaximizing i bestScore bestMove =
     (if i < length board then
        (if get board i = Null then
           (let r = minimax (put board i (Mark (if isMaximizing then PlayerO else PlayerX)))
                      (\<not> isMaximizing);
                score = fst r;
                board' = put (snd r) i Null
            in if isMaximizing \<and> gt score bestScore
               then minimaxLoop board' isMaximizing (i + 1) (Fin score) (int i)
               else if \<not> isMaximizing \<and> lt score bestScore
               then minimaxLoop board' isMaximizing (i + 1) (Fin score) (int i)
               else minimaxLoop board' isMaximizing (i + 1) bestScore bestMove)
         else minimaxLoop board isMaximizing (i + 1) bestScore bestMove)
      else (bestMove, board))"
  by pat_completeness auto

subsection \<open>Termination: every placement is undone, so the loop sees the same board\<close>

lemma put_undo: "get board i = Null \<Longrightarrow> put (put board i v) i Null = board"
  by (auto simp: put_def get_def list_update_same_conv split: if_splits)

lemma minimax_board_dom:
  "minimax_minimaxLoop_dom (Inl (board, isMaximizing)) \<Longrightarrow>
     snd (minimax board isMaximizing) = board"
  "minimax_minimaxLoop_dom (Inr (board, isMaximizing, i, bestScore, bestMove)) \<Longrightarrow>
     snd (minimaxLoop board isMaximizing i bestScore bestMove) = board"
proof (induction board isMaximizing and board isMaximizing i bestScore bestMove
       rule: minimax_minimaxLoop.pinduct)
  case (1 board isMaximizing)
  then show ?case
    by (auto simp: minimax.psimps split: option.splits Player.splits)
next
  case (2 board isMaximizing i bestScore bestMove)
  show ?case
  proof (cases "i < length board \<and> get board i = Null")
    case False
    with 2 show ?thesis by (auto simp: minimaxLoop.psimps)
  next
    case True
    define r where
      "r = minimax (put board i (Mark (if isMaximizing then PlayerO else PlayerX)))
             (\<not> isMaximizing)"
    have "snd r = put board i (Mark (if isMaximizing then PlayerO else PlayerX))"
      unfolding r_def using 2(2) True by simp
    then have b: "put (snd r) i Null = board"
      using True by (simp only: put_undo)
    have eq: "minimaxLoop board isMaximizing i bestScore bestMove =
        (if isMaximizing \<and> gt (fst r) bestScore
         then minimaxLoop board isMaximizing (i + 1) (Fin (fst r)) (int i)
         else if \<not> isMaximizing \<and> lt (fst r) bestScore
         then minimaxLoop board isMaximizing (i + 1) (Fin (fst r)) (int i)
         else minimaxLoop board isMaximizing (i + 1) bestScore bestMove)"
      using 2(1) True b by (simp add: minimaxLoop.psimps Let_def r_def [symmetric])
    have ih3: "isMaximizing \<and> gt (fst r) bestScore \<Longrightarrow>
        snd (minimaxLoop board isMaximizing (i + 1) (Fin (fst r)) (int i)) = board"
      using 2(3)[OF _ _ r_def refl refl] True b by simp
    have ih4: "\<not> (isMaximizing \<and> gt (fst r) bestScore) \<Longrightarrow>
        \<not> isMaximizing \<and> lt (fst r) bestScore \<Longrightarrow>
        snd (minimaxLoop board isMaximizing (i + 1) (Fin (fst r)) (int i)) = board"
      using 2(4)[OF _ _ r_def refl refl] True b by simp
    have ih5: "\<not> (isMaximizing \<and> gt (fst r) bestScore) \<Longrightarrow>
        \<not> (\<not> isMaximizing \<and> lt (fst r) bestScore) \<Longrightarrow>
        snd (minimaxLoop board isMaximizing (i + 1) bestScore bestMove) = board"
      using 2(5)[OF _ _ r_def refl refl] True b by simp
    show ?thesis
      unfolding eq using ih3 ih4 ih5 by presburger
  qed
qed

lemma count_list_update_Null:
  "i < length board \<Longrightarrow> board ! i = Null \<Longrightarrow> v \<noteq> Null \<Longrightarrow>
     Suc (count_list (board[i := v]) Null) = count_list board Null"
proof (induction board arbitrary: i)
  case Nil
  then show ?case by simp
next
  case (Cons c cs)
  then show ?case by (cases i) auto
qed

lemma count_put_less:
  "i < length board \<Longrightarrow> get board i = Null \<Longrightarrow>
     count_list (put board i (Mark p)) Null < count_list board Null"
  using count_list_update_Null [of i board "Mark p"] by (simp add: get_def put_def)

lemma loop_board_restored:
  assumes "i < length board" "get board i = Null"
    and "minimax_minimaxLoop_dom (Inl (put board i v, m))"
  shows "put (snd (minimax (put board i v) m)) i Null = board"
  using assms by (simp add: minimax_board_dom(1) put_undo)

termination minimax
proof (relation "inv_image (less_than <*lex*> less_than)
         (\<lambda>a. case a of
                Inl (board, isMaximizing) \<Rightarrow> (count_list board Null, Suc (length board))
              | Inr (board, isMaximizing, i, bestScore, bestMove) \<Rightarrow>
                  (count_list board Null, length board - i))", goal_cases)
  case 1
  show ?case by auto
next
  case (2 board isMaximizing)
  then show ?case by simp
next
  case (3 board isMaximizing i bestScore bestMove)
  then show ?case by (simp add: count_put_less)
next
  case (4 board isMaximizing i bestScore bestMove x xa xb)
  then have "xb = board" by (simp add: loop_board_restored)
  with 4 show ?case by auto
next
  case (5 board isMaximizing i bestScore bestMove x xa xb)
  then have "xb = board" by (simp add: loop_board_restored)
  with 5 show ?case by auto
next
  case (6 board isMaximizing i bestScore bestMove x xa xb)
  then have "xb = board" by (simp add: loop_board_restored)
  with 6 show ?case by auto
next
  case (7 board isMaximizing i bestScore bestMove)
  then show ?case by auto
qed

declare minimax.simps [simp del] minimaxLoop.simps [simp del]

section \<open>The interface the specification names\<close>

text \<open>
  The outcome of a board as the source classifies it, at the head of \<open>minimax\<close>
  (\<^verbatim>\<open>calculateWinner\<close>, then \<^verbatim>\<open>board.every(cell => cell !== null)\<close>) and in the
  same order in \<open>handleClick\<close> and \<open>aiMove\<close>.
\<close>

datatype GameOutcome = IN_PROGRESS | WIN Player | DRAW

definition evaluate :: "Board \<Rightarrow> GameOutcome" where
  "evaluate board =
     (case calculateWinner board of
        Some p \<Rightarrow> WIN p
      | None \<Rightarrow> if everyNonNull board then DRAW else IN_PROGRESS)"

text \<open>
  \<open>selectMove\<close> is \<open>minimax\<close> called for a side: the source places \<^verbatim>\<open>"O"\<close> when
  \<^verbatim>\<open>isMaximizing\<close> and \<^verbatim>\<open>"X"\<close> otherwise, so the side to move is O exactly when
  \<^verbatim>\<open>isMaximizing\<close> holds. \<open>boardAfterSelectMove\<close> is the caller's array after the call.
\<close>

definition selectMove :: "Board \<Rightarrow> Player \<Rightarrow> int" where
  "selectMove board sideToMove = fst (minimax board (sideToMove = PlayerO))"

definition boardAfterSelectMove :: "Board \<Rightarrow> Player \<Rightarrow> Board" where
  "boardAfterSelectMove board sideToMove = snd (minimax board (sideToMove = PlayerO))"

text \<open>The mark \<open>minimax\<close> places at a level, and the number it compares for cell \<open>i\<close>.\<close>

definition mover :: "bool \<Rightarrow> Player" where
  "mover isMaximizing = (if isMaximizing then PlayerO else PlayerX)"

definition childScore :: "Board \<Rightarrow> bool \<Rightarrow> nat \<Rightarrow> int" where
  "childScore board isMaximizing i =
     fst (minimax (put board i (Mark (mover isMaximizing))) (\<not> isMaximizing))"

text \<open>The two update tests of the loop: \<^verbatim>\<open>isMaximizing && score > bestScore\<close>, or
  \<^verbatim>\<open>!isMaximizing && score < bestScore\<close>.\<close>

definition better :: "bool \<Rightarrow> int \<Rightarrow> Num \<Rightarrow> bool" where
  "better isMaximizing score bestScore =
     ((isMaximizing \<and> gt score bestScore) \<or> (\<not> isMaximizing \<and> lt score bestScore))"

text \<open>A score that is strictly better for the side at this level than another score.\<close>

definition strictlyBetter :: "bool \<Rightarrow> int \<Rightarrow> int \<Rightarrow> bool" where
  "strictlyBetter isMaximizing s t = (if isMaximizing then s > t else s < t)"

text \<open>
  An empty cell that is best by the number the loop compares (\<open>childScore\<close>, not the
  game-theoretic score): no empty cell of the board has a strictly better one.
\<close>

definition bestCompared :: "Board \<Rightarrow> bool \<Rightarrow> nat \<Rightarrow> bool" where
  "bestCompared board isMaximizing j =
     (j < length board \<and> get board j = Null \<and>
      list_all (\<lambda>i. get board i = Null \<longrightarrow>
                  \<not> strictlyBetter isMaximizing (childScore board isMaximizing i)
                       (childScore board isMaximizing j))
        [0..<length board])"


section \<open>The game-theoretic score of the specification\<close>

text \<open>
  The score as the specification words it, to compare with what \<open>minimax\<close> computes; it
  is not a function of the source. A terminal board scores +10 for a win of the
  maximizing side (O in the source), -10 for a win of the minimizing side, 0 for a
  draw; a board in progress scores the maximum (maximizing side to move) or the minimum
  (minimizing side to move) of the scores of the boards one placement away, with the
  turn flipped.
\<close>

definition emptyCells :: "Board \<Rightarrow> nat list" where
  "emptyCells board = filter (\<lambda>i. get board i = Null) [0..<length board]"

function gameValue :: "Board \<Rightarrow> bool \<Rightarrow> int" where
  "gameValue board isMaximizing =
     (case evaluate board of
        WIN PlayerO \<Rightarrow> 10
      | WIN PlayerX \<Rightarrow> - 10
      | DRAW \<Rightarrow> 0
      | IN_PROGRESS \<Rightarrow>
          (let vs = map (\<lambda>i. gameValue (put board i (Mark (mover isMaximizing)))
                                (\<not> isMaximizing))
                        (emptyCells board)
           in if isMaximizing then Max (set vs) else Min (set vs)))"
  by pat_completeness auto
termination gameValue
proof (relation "measure (\<lambda>(board, isMaximizing). count_list board Null)", goal_cases)
  case 1
  show ?case by simp
next
  case (2 board isMaximizing i)
  then show ?case by (simp add: emptyCells_def count_put_less)
qed

declare gameValue.simps [simp del]

text \<open>
  An empty cell with the best game-theoretic score for the side to move: no empty cell
  of the board has a strictly better one.
\<close>

definition gameBest :: "Board \<Rightarrow> bool \<Rightarrow> nat \<Rightarrow> bool" where
  "gameBest board isMaximizing j =
     (j < length board \<and> get board j = Null \<and>
      list_all (\<lambda>i. \<not> strictlyBetter isMaximizing
                        (gameValue (put board i (Mark (mover isMaximizing))) (\<not> isMaximizing))
                        (gameValue (put board j (Mark (mover isMaximizing))) (\<not> isMaximizing)))
        (emptyCells board))"

section \<open>The game session: the component's state and its handlers\<close>

text \<open>
  The \<^verbatim>\<open>useState\<close> cells of the component. A handler reads the values of the render it
  was created in and queues updates; the model applies the queued updates in order, so
  a later \<^verbatim>\<open>setBoard\<close> overrides an earlier one.
\<close>

record Scores =
  scoreX :: nat
  scoreO :: nat

record Players =
  nameX :: string
  nameO :: string

datatype GameMode = ModeAI | ModePlayer

record State =
  board :: Board
  xIsNext :: bool
  players :: Players
  scores :: Scores
  winner :: "Player option"
  gameStarted :: bool
  isDarkMode :: bool
  gameMode :: "GameMode option"

text \<open>\<^verbatim>\<open>setScores(prev => ({...prev, [gameWinner]: prev[gameWinner] + 1}))\<close>\<close>

definition updateScores :: "Player \<Rightarrow> State \<Rightarrow> State" where
  "updateScores gameWinner s =
     (case gameWinner of
        PlayerX \<Rightarrow> s\<lparr>scores := (scores s)\<lparr>scoreX := scoreX (scores s) + 1\<rparr>\<rparr>
      | PlayerO \<Rightarrow> s\<lparr>scores := (scores s)\<lparr>scoreO := scoreO (scores s) + 1\<rparr>\<rparr>)"

definition startNewGame :: "State \<Rightarrow> State" where
  "startNewGame s = s\<lparr>board := emptyBoard, winner := None, xIsNext := True\<rparr>"

definition resetGame :: "State \<Rightarrow> State" where
  "resetGame s =
     s\<lparr>board := emptyBoard, winner := None, scores := \<lparr>scoreX = 0, scoreO = 0\<rparr>,
       gameStarted := False, gameMode := None\<rparr>"

text \<open>A cell is truthy exactly when it holds a \<^verbatim>\<open>Player\<close>.\<close>

fun truthy :: "Cell \<Rightarrow> bool" where
  "truthy (Mark p) = True"
| "truthy Null = False"
| "truthy Undefined = False"

text \<open>
  \<open>handleClick\<close> returns the state after the queued updates, and the board handed to
  \<^verbatim>\<open>setTimeout(() => aiMove(newBoard), 500)\<close> when the timer is set.
\<close>

definition handleClick :: "State \<Rightarrow> nat \<Rightarrow> State \<times> Board option" where
  "handleClick s index =
     (if truthy (get (board s) index) \<or> winner s \<noteq> None then (s, None)
      else
        let newBoard = put (board s) index (Mark (if xIsNext s then PlayerX else PlayerO));
            s1 = s\<lparr>board := newBoard, xIsNext := \<not> xIsNext s\<rparr>
        in case calculateWinner newBoard of
             Some gameWinner \<Rightarrow> (updateScores gameWinner (s1\<lparr>winner := Some gameWinner\<rparr>), None)
           | None \<Rightarrow>
               if everyNonNull newBoard then (startNewGame (s1\<lparr>winner := None\<rparr>), None)
               else if gameMode s = Some ModeAI then (s1, Some newBoard)
               else (s1, None))"

text \<open>
  \<^verbatim>\<open>newBoard[bestMove] = "O"\<close> with a number: a negative index sets a property of the
  array object and leaves its elements as they are.
\<close>

definition putAt :: "Board \<Rightarrow> int \<Rightarrow> Cell \<Rightarrow> Board" where
  "putAt b k v = (if k < 0 then b else put b (nat k) v)"

definition aiMove :: "State \<Rightarrow> Board \<Rightarrow> State" where
  "aiMove s newBoard =
     (let r = minimax newBoard True;
          bestMove = fst r;
          newBoard' = putAt (snd r) bestMove (Mark PlayerO);
          s1 = s\<lparr>board := newBoard', xIsNext := True\<rparr>
      in case calculateWinner newBoard' of
           Some gameWinner \<Rightarrow> updateScores gameWinner (s1\<lparr>winner := Some gameWinner\<rparr>)
         | None \<Rightarrow> if everyNonNull newBoard' then startNewGame s1 else s1)"

section \<open>Relabelling the two marks\<close>

fun swapPlayer :: "Player \<Rightarrow> Player" where
  "swapPlayer PlayerX = PlayerO"
| "swapPlayer PlayerO = PlayerX"

fun swapCell :: "Cell \<Rightarrow> Cell" where
  "swapCell (Mark p) = Mark (swapPlayer p)"
| "swapCell Null = Null"
| "swapCell Undefined = Undefined"

definition swapBoard :: "Board \<Rightarrow> Board" where
  "swapBoard b = map swapCell b"

fun swapOutcome :: "GameOutcome \<Rightarrow> GameOutcome" where
  "swapOutcome (WIN p) = WIN (swapPlayer p)"
| "swapOutcome IN_PROGRESS = IN_PROGRESS"
| "swapOutcome DRAW = DRAW"

text \<open>A line whose three cells all hold the mark \<open>p\<close>.\<close>

definition ownsLine :: "Board \<Rightarrow> Player \<Rightarrow> nat \<times> nat \<times> nat \<Rightarrow> bool" where
  "ownsLine b p line =
     (case line of (x, y, z) \<Rightarrow> get b x = Mark p \<and> get b y = Mark p \<and> get b z = Mark p)"

section \<open>Concrete boards used below\<close>

text \<open>
  \<^verbatim>\<open>[O,X,O, X,O,_, X,_,X]\<close>, O to move: X threatens the bottom row at cell 7. It is
  reached in a game against the computer by X: 1, O: 2, X: 8, O: 4, X: 6, O: 0, X: 3.
\<close>

definition threatBoard :: Board where
  "threatBoard = [Mark PlayerO, Mark PlayerX, Mark PlayerO,
                  Mark PlayerX, Mark PlayerO, Null,
                  Mark PlayerX, Null, Mark PlayerX]"

text \<open>
  \<^verbatim>\<open>[X,X,O, _,_,O, X,_,_]\<close>, O to move: cell 8 wins at once and cell 3 wins by force.
  It is reached in a game against the computer by X: 1, O: 2, X: 0, O: 5, X: 6.
\<close>

definition tieBoard :: Board where
  "tieBoard = [Mark PlayerX, Mark PlayerX, Mark PlayerO,
               Null, Null, Mark PlayerO,
               Mark PlayerX, Null, Null]"

text \<open>\<^verbatim>\<open>[X,O,X, X,O,O, O,X,_]\<close>: one empty cell, and neither mark completes a line there.\<close>

definition lastCellBoard :: Board where
  "lastCellBoard = [Mark PlayerX, Mark PlayerO, Mark PlayerX,
                    Mark PlayerX, Mark PlayerO, Mark PlayerO,
                    Mark PlayerO, Mark PlayerX, Null]"

text \<open>
  \<^verbatim>\<open>[X,X,X, O,O,O, _,_,_]\<close>: both marks hold a line; the X line comes first in the
  fixed order.
\<close>

definition bothLinesBoard :: Board where
  "bothLinesBoard = [Mark PlayerX, Mark PlayerX, Mark PlayerX,
                     Mark PlayerO, Mark PlayerO, Mark PlayerO,
                     Null, Null, Null]"

definition initialState :: State where
  "initialState =
     \<lparr>board = emptyBoard, xIsNext = True,
      players = \<lparr>nameX = ''Player 1'', nameO = ''AI''\<rparr>,
      scores = \<lparr>scoreX = 0, scoreO = 0\<rparr>,
      winner = None, gameStarted = False, isDarkMode = False, gameMode = None\<rparr>"

section \<open>minimax as a value, for computing it on concrete boards\<close>

text \<open>
  These constants restate parts of \<open>minimax\<close> and \<open>calculateWinner\<close> so that the
  simplifier can run them on a concrete board; the equations that connect them to the
  functions above are proved in the section of evaluation rules.

  \<open>minimaxValue\<close> is the number a call of \<open>minimax\<close> returns, \<open>loopValue\<close> the number the
  loop returns from index \<open>i\<close> on, with \<^verbatim>\<open>bestScore\<close> and \<^verbatim>\<open>bestMove\<close> paired in a
  \<open>Best\<close>; \<open>keepBest\<close> is the update of the pair for a score \<open>s\<close> at cell \<open>i\<close>, and
  \<open>decide\<close> the three tests at the head of \<open>minimax\<close>, given the winner and whether the
  board is full.
\<close>

definition minimaxValue :: "bool \<Rightarrow> Board \<Rightarrow> int" where
  "minimaxValue m b = fst (minimax b m)"

datatype Best = Best Num int

fun keepBest :: "bool \<Rightarrow> int \<Rightarrow> int \<Rightarrow> Best \<Rightarrow> Best" where
  "keepBest m s i (Best bs bm) = (if better m s bs then Best (Fin s) i else Best bs bm)"

fun loopValue :: "bool \<Rightarrow> nat \<Rightarrow> Best \<Rightarrow> Board \<Rightarrow> int" where
  "loopValue m i (Best bs bm) b = fst (minimaxLoop b m i bs bm)"

definition decide :: "bool \<Rightarrow> Player option \<Rightarrow> bool \<Rightarrow> Board \<Rightarrow> int" where
  "decide m w full b =
     (case w of
        Some PlayerX \<Rightarrow> - 10
      | Some PlayerO \<Rightarrow> 10
      | None \<Rightarrow> if full then 0
                else loopValue m 0 (Best (if m then NegInfinity else PosInfinity) (- 1)) b)"

text \<open>
  The mark that three cells share, if any; the first of two results that is a mark; and
  a board with no \<^verbatim>\<open>null\<close> cell, by recursion on the cells.
\<close>

fun line3 :: "Cell \<Rightarrow> Cell \<Rightarrow> Cell \<Rightarrow> Player option" where
  "line3 (Mark PlayerX) (Mark PlayerX) (Mark PlayerX) = Some PlayerX"
| "line3 (Mark PlayerO) (Mark PlayerO) (Mark PlayerO) = Some PlayerO"
| "line3 _ _ _ = None"

fun orElse :: "Player option \<Rightarrow> Player option \<Rightarrow> Player option" where
  "orElse (Some p) y = Some p"
| "orElse None y = y"

fun nonNull :: "Board \<Rightarrow> bool" where
  "nonNull [] = True"
| "nonNull (Null # cs) = False"
| "nonNull (Mark p # cs) = nonNull cs"
| "nonNull (Undefined # cs) = nonNull cs"

section \<open>Facts about minimax\<close>

subsection \<open>The call returns, and the board comes back as it went in\<close>

lemma minimax_total:
  "minimax_minimaxLoop_dom (Inl (b, m))"
  "minimax_minimaxLoop_dom (Inr (b, m, i, bs, bm))"
proof (induction b m and b m i bs bm rule: minimax_minimaxLoop.induct)
  case (1 board isMaximizing)
  then show ?case
    by (auto intro: minimax_minimaxLoop.domintros)
next
  case (2 board isMaximizing i bestScore bestMove)
  show ?case
    by (rule minimax_minimaxLoop.domintros(2)) (use 2 in auto)
qed

lemma minimax_board: "snd (minimax b m) = b"
  by (rule minimax_board_dom(1)) (rule minimax_total)

lemma minimaxLoop_board: "snd (minimaxLoop b m i bs bm) = b"
  by (rule minimax_board_dom(2)) (rule minimax_total)

subsection \<open>The loop, read without the board\<close>

lemma minimaxLoop_step:
  "minimaxLoop b m i bs bm =
     (if i < length b then
        (if get b i = Null then
           (if better m (childScore b m i) bs
            then minimaxLoop b m (i + 1) (Fin (childScore b m i)) (int i)
            else minimaxLoop b m (i + 1) bs bm)
         else minimaxLoop b m (i + 1) bs bm)
      else (bm, b))"
proof (cases "i < length b \<and> get b i = Null")
  case False
  then show ?thesis by (subst minimaxLoop.simps) auto
next
  case True
  then have "put (snd (minimax (put b i (Mark (if m then PlayerO else PlayerX))) (\<not> m))) i Null = b"
    by (simp add: minimax_board put_undo)
  with True show ?thesis
    by (subst minimaxLoop.simps) (auto simp: Let_def better_def childScore_def mover_def)
qed

lemma better_trans: "better m a (Fin c) \<Longrightarrow> better m c bs \<Longrightarrow> better m a bs"
  by (cases bs) (auto simp: better_def)

lemma better_not: "better m a bs \<Longrightarrow> \<not> better m c bs \<Longrightarrow> better m a (Fin c)"
  by (cases bs) (auto simp: better_def)

lemma better_Fin: "better m a (Fin c) = strictlyBetter m a c"
  by (auto simp: better_def strictlyBetter_def)

text \<open>
  What the loop from index \<open>i\<close> returns: either no empty cell from \<open>i\<close> on beats
  \<open>bestScore\<close> and \<open>bestMove\<close> is kept, or it is the first cell \<open>k\<close> among those whose
  score no later cell beats.
\<close>

lemma loop_spec:
  "(fst (minimaxLoop b m i bs bm) = bm \<and>
      (\<forall>j. i \<le> j \<and> j < length b \<and> get b j = Null \<longrightarrow> \<not> better m (childScore b m j) bs))
   \<or> (\<exists>k. fst (minimaxLoop b m i bs bm) = int k \<and> i \<le> k \<and> k < length b \<and> get b k = Null
          \<and> better m (childScore b m k) bs
          \<and> (\<forall>j. i \<le> j \<and> j < k \<and> get b j = Null \<longrightarrow>
                 better m (childScore b m k) (Fin (childScore b m j)))
          \<and> (\<forall>j. k < j \<and> j < length b \<and> get b j = Null \<longrightarrow>
                 \<not> better m (childScore b m j) (Fin (childScore b m k))))"
  (is "?keep i bs bm \<or> ?found i bs bm")
proof (induction "length b - i" arbitrary: i bs bm)
  case 0
  then show ?case by (subst minimaxLoop_step) auto
next
  case (Suc n)
  then have i: "i < length b" and n: "n = length b - (i + 1)" by auto
  have split: "i \<le> j \<longleftrightarrow> j = i \<or> i + 1 \<le> j" for j by auto
  show ?case
  proof (cases "get b i = Null")
    case False
    then have eq: "minimaxLoop b m i bs bm = minimaxLoop b m (i + 1) bs bm"
      using i by (subst minimaxLoop_step) simp
    from Suc.hyps(1) [OF n, of bs bm] show ?thesis
    proof
      assume "?keep (i + 1) bs bm"
      then have "?keep i bs bm" unfolding eq split using False by auto
      then show ?thesis ..
    next
      assume "?found (i + 1) bs bm"
      then obtain k where k: "fst (minimaxLoop b m (i + 1) bs bm) = int k" "i + 1 \<le> k"
        "k < length b" "get b k = Null" "better m (childScore b m k) bs"
        "\<forall>j. i + 1 \<le> j \<and> j < k \<and> get b j = Null \<longrightarrow>
                 better m (childScore b m k) (Fin (childScore b m j))"
        "\<forall>j. k < j \<and> j < length b \<and> get b j = Null \<longrightarrow>
                 \<not> better m (childScore b m j) (Fin (childScore b m k))"
        by blast
      have "\<forall>j. i \<le> j \<and> j < k \<and> get b j = Null \<longrightarrow>
                 better m (childScore b m k) (Fin (childScore b m j))"
        unfolding split using k(6) False by auto
      with k have "?found i bs bm" unfolding eq by (intro exI [of _ k]) simp
      then show ?thesis ..
    qed
  next
    case True
    define v where "v = childScore b m i"
    show ?thesis
    proof (cases "better m v bs")
      case better: True
      then have eq: "minimaxLoop b m i bs bm = minimaxLoop b m (i + 1) (Fin v) (int i)"
        using i True by (subst minimaxLoop_step) (simp add: v_def)
      from Suc.hyps(1) [OF n, of "Fin v" "int i"] show ?thesis
      proof
        assume "?keep (i + 1) (Fin v) (int i)"
        then have "?found i bs bm"
          unfolding eq using i True better by (intro exI [of _ i]) (auto simp: v_def)
        then show ?thesis ..
      next
        assume "?found (i + 1) (Fin v) (int i)"
        then obtain k where k: "fst (minimaxLoop b m (i + 1) (Fin v) (int i)) = int k"
          "i + 1 \<le> k" "k < length b" "get b k = Null" "better m (childScore b m k) (Fin v)"
          "\<forall>j. i + 1 \<le> j \<and> j < k \<and> get b j = Null \<longrightarrow>
                 better m (childScore b m k) (Fin (childScore b m j))"
          "\<forall>j. k < j \<and> j < length b \<and> get b j = Null \<longrightarrow>
                 \<not> better m (childScore b m j) (Fin (childScore b m k))"
          by blast
        have 1: "better m (childScore b m k) bs"
          using better_trans [OF k(5) better] .
        have 2: "\<forall>j. i \<le> j \<and> j < k \<and> get b j = Null \<longrightarrow>
                 better m (childScore b m k) (Fin (childScore b m j))"
          unfolding split using k(5,6) by (auto simp: v_def)
        from k 1 2 have "?found i bs bm" unfolding eq by (intro exI [of _ k]) simp
        then show ?thesis ..
      qed
    next
      case worse: False
      then have eq: "minimaxLoop b m i bs bm = minimaxLoop b m (i + 1) bs bm"
        using i True by (subst minimaxLoop_step) (simp add: v_def)
      from Suc.hyps(1) [OF n, of bs bm] show ?thesis
      proof
        assume "?keep (i + 1) bs bm"
        then have "?keep i bs bm" unfolding eq split using worse by (auto simp: v_def)
        then show ?thesis ..
      next
        assume "?found (i + 1) bs bm"
        then obtain k where k: "fst (minimaxLoop b m (i + 1) bs bm) = int k" "i + 1 \<le> k"
          "k < length b" "get b k = Null" "better m (childScore b m k) bs"
          "\<forall>j. i + 1 \<le> j \<and> j < k \<and> get b j = Null \<longrightarrow>
                 better m (childScore b m k) (Fin (childScore b m j))"
          "\<forall>j. k < j \<and> j < length b \<and> get b j = Null \<longrightarrow>
                 \<not> better m (childScore b m j) (Fin (childScore b m k))"
          by blast
        have "better m (childScore b m k) (Fin v)"
          using better_not [OF k(5) worse] .
        then have "\<forall>j. i \<le> j \<and> j < k \<and> get b j = Null \<longrightarrow>
                 better m (childScore b m k) (Fin (childScore b m j))"
          unfolding split using k(6) by (auto simp: v_def)
        with k have "?found i bs bm" unfolding eq by (intro exI [of _ k]) simp
        then show ?thesis ..
      qed
    qed
  qed
qed

subsection \<open>What a call on a board in progress returns\<close>

lemma everyNonNull_iff: "everyNonNull b \<longleftrightarrow> (\<forall>i<length b. get b i \<noteq> Null)"
  by (auto simp: everyNonNull_def get_def list_all_length)

lemma in_progress_iff:
  "evaluate b = IN_PROGRESS \<longleftrightarrow> calculateWinner b = None \<and> \<not> everyNonNull b"
  by (auto simp: evaluate_def split: option.splits)

lemma minimax_in_progress:
  assumes "evaluate b = IN_PROGRESS"
  shows "minimax b m = minimaxLoop b m 0 (if m then NegInfinity else PosInfinity) (- 1)"
  using assms by (subst minimax.simps) (simp add: in_progress_iff)

lemma better_init: "better m s (if m then NegInfinity else PosInfinity)"
  by (simp add: better_def)

lemma minimax_spec:
  assumes "evaluate b = IN_PROGRESS"
  shows "\<exists>k. fst (minimax b m) = int k \<and> k < length b \<and> get b k = Null
          \<and> (\<forall>j. j < k \<and> get b j = Null \<longrightarrow>
                 strictlyBetter m (childScore b m k) (childScore b m j))
          \<and> (\<forall>j. j < length b \<and> get b j = Null \<longrightarrow>
                 \<not> strictlyBetter m (childScore b m j) (childScore b m k))"
proof -
  let ?init = "if m then NegInfinity else PosInfinity"
  from assms obtain e where e: "e < length b" "get b e = Null"
    by (auto simp: in_progress_iff everyNonNull_iff)
  from loop_spec [of b m 0 ?init "- 1"] show ?thesis
  proof
    assume "fst (minimaxLoop b m 0 ?init (- 1)) = - 1 \<and>
      (\<forall>j. 0 \<le> j \<and> j < length b \<and> get b j = Null \<longrightarrow> \<not> better m (childScore b m j) ?init)"
    with e better_init [of m "childScore b m e"] show ?thesis by blast
  next
    assume "\<exists>k. fst (minimaxLoop b m 0 ?init (- 1)) = int k \<and> 0 \<le> k \<and> k < length b \<and> get b k = Null
          \<and> better m (childScore b m k) ?init
          \<and> (\<forall>j. 0 \<le> j \<and> j < k \<and> get b j = Null \<longrightarrow>
                 better m (childScore b m k) (Fin (childScore b m j)))
          \<and> (\<forall>j. k < j \<and> j < length b \<and> get b j = Null \<longrightarrow>
                 \<not> better m (childScore b m j) (Fin (childScore b m k)))"
    then obtain k where k: "fst (minimaxLoop b m 0 ?init (- 1)) = int k" "k < length b" "get b k = Null"
       "\<forall>j. j < k \<and> get b j = Null \<longrightarrow> strictlyBetter m (childScore b m k) (childScore b m j)"
       "\<forall>j. k < j \<and> j < length b \<and> get b j = Null \<longrightarrow>
                 \<not> strictlyBetter m (childScore b m j) (childScore b m k)"
      unfolding better_Fin by auto
    have "\<not> strictlyBetter m (childScore b m j) (childScore b m k)" if "j < length b" "get b j = Null" for j
    proof -
      consider "j < k" | "j = k" | "k < j" by linarith
      then show ?thesis
      proof cases
        case 1 with k(4) that show ?thesis by (auto simp: strictlyBetter_def split: if_splits)
      next
        case 2 then show ?thesis by (simp add: strictlyBetter_def)
      next
        case 3 with k(5) that show ?thesis by blast
      qed
    qed
    with k show ?thesis
      unfolding minimax_in_progress [OF assms] by (intro exI [of _ k]) simp
  qed
qed

lemma bestCompared_iff:
  "bestCompared b m j \<longleftrightarrow>
     j < length b \<and> get b j = Null \<and>
     (\<forall>i. i < length b \<and> get b i = Null \<longrightarrow>
        \<not> strictlyBetter m (childScore b m i) (childScore b m j))"
  by (auto simp: bestCompared_def list_all_iff)

text \<open>
  The tie-break of the loop, for the number it compares: on a board in progress the
  returned cell is the lowest of the cells that are best by \<open>childScore\<close>, and a second
  call on the board the first call leaves returns it again.
\<close>

lemma lowest_compared_cell:
  assumes "evaluate b = IN_PROGRESS"
  shows "\<exists>k. selectMove b sideToMove = int k
          \<and> bestCompared b (sideToMove = PlayerO) k
          \<and> (\<forall>j. bestCompared b (sideToMove = PlayerO) j \<longrightarrow> k \<le> j)
          \<and> selectMove (boardAfterSelectMove b sideToMove) sideToMove = int k"
proof -
  let ?m = "sideToMove = PlayerO"
  from minimax_spec [OF assms, of ?m]
  obtain k where k: "fst (minimax b ?m) = int k" "k < length b" "get b k = Null"
    and lower: "\<forall>j. j < k \<and> get b j = Null \<longrightarrow>
                  strictlyBetter ?m (childScore b ?m k) (childScore b ?m j)"
    and best: "\<forall>j. j < length b \<and> get b j = Null \<longrightarrow>
                  \<not> strictlyBetter ?m (childScore b ?m j) (childScore b ?m k)"
    by blast
  from k best have 1: "bestCompared b ?m k" by (simp add: bestCompared_iff)
  have 2: "k \<le> j" if "bestCompared b ?m j" for j
  proof (rule ccontr)
    assume "\<not> k \<le> j"
    then have "j < k" by simp
    moreover from that have "get b j = Null" by (simp add: bestCompared_iff)
    ultimately have "strictlyBetter ?m (childScore b ?m k) (childScore b ?m j)"
      using lower by blast
    moreover from that k have "\<not> strictlyBetter ?m (childScore b ?m k) (childScore b ?m j)"
      by (simp add: bestCompared_iff)
    ultimately show False by blast
  qed
  from k(1) 1 2 show ?thesis
    unfolding selectMove_def boardAfterSelectMove_def minimax_board
    by (intro exI [of _ k]) simp
qed

section \<open>Self-play\<close>

text \<open>
  The scenario of the specification's perfect-play property, not a function of the
  source: from a board and a side, \<open>selectMove\<close> chooses the cell, the side's mark is
  placed there as \<open>aiMove\<close> places it, and the other side moves next, until the board
  is no longer in progress.
\<close>

function selfPlay :: "Board \<Rightarrow> Player \<Rightarrow> Board" where
  "selfPlay b sideToMove =
     (if evaluate b = IN_PROGRESS
      then selfPlay (putAt b (selectMove b sideToMove) (Mark sideToMove)) (swapPlayer sideToMove)
      else b)"
  by pat_completeness auto

lemma selectMove_fills_a_cell:
  assumes "evaluate b = IN_PROGRESS"
  shows "count_list (putAt b (selectMove b s) (Mark s)) Null < count_list b Null"
proof -
  from minimax_spec [OF assms, of "s = PlayerO"]
  obtain k where "selectMove b s = int k" "k < length b" "get b k = Null"
    unfolding selectMove_def by blast
  then show ?thesis by (simp add: putAt_def count_put_less)
qed

termination selfPlay
  by (relation "measure (\<lambda>(b, s). count_list b Null)") (simp_all add: selectMove_fills_a_cell)

declare selfPlay.simps [simp del]

lemma selfPlay_step:
  assumes "evaluate b = IN_PROGRESS" and "selectMove b s = int k" and "k < length b"
  shows "selfPlay b s = selfPlay (b[k := Mark s]) (swapPlayer s)"
  using assms by (subst selfPlay.simps) (simp add: putAt_def put_def)

lemma selfPlay_stop:
  assumes "evaluate b \<noteq> IN_PROGRESS"
  shows "selfPlay b s = b"
  using assms by (subst selfPlay.simps) simp

lemma selectMove_minimaxValue:
  "selectMove b PlayerX = minimaxValue False b" "selectMove b PlayerO = minimaxValue True b"
  by (simp_all add: selectMove_def minimaxValue_def)

lemma emptyBoard_cells:
  "emptyBoard = [Null, Null, Null, Null, Null, Null, Null, Null, Null]"
  by (simp add: emptyBoard_def numeral_eq_Suc)

section \<open>Facts about calculateWinner\<close>

lemma ownsLine_unique: "ownsLine b p l \<Longrightarrow> ownsLine b q l \<Longrightarrow> p = q"
  by (cases l) (auto simp: ownsLine_def)

lemma lineMatch_Some: "lineMatch b l = Some p \<longleftrightarrow> ownsLine b p l"
  by (cases l) (auto simp: lineMatch_def ownsLine_def split: Cell.splits)

lemma lineMatch_None: "lineMatch b l = None \<longleftrightarrow> (\<forall>q. \<not> ownsLine b q l)"
  using lineMatch_Some [of b l] by (cases "lineMatch b l") auto

lemma winnerLoop_Some:
  "winnerLoop b ls = Some p \<longleftrightarrow>
     (\<exists>n<length ls. ownsLine b p (ls ! n) \<and> (\<forall>k<n. \<forall>q. \<not> ownsLine b q (ls ! k)))"
proof (induction ls)
  case Nil
  then show ?case by simp
next
  case (Cons l rest)
  show ?case
  proof (cases "lineMatch b l")
    case None
    then have no: "\<forall>q. \<not> ownsLine b q l" by (simp add: lineMatch_None)
    have "(\<exists>n<length (l # rest). ownsLine b p ((l # rest) ! n) \<and>
             (\<forall>k<n. \<forall>q. \<not> ownsLine b q ((l # rest) ! k)))
          \<longleftrightarrow> (\<exists>n<length rest. ownsLine b p (rest ! n) \<and>
             (\<forall>k<n. \<forall>q. \<not> ownsLine b q (rest ! k)))"
      (is "?L \<longleftrightarrow> ?R")
    proof
      assume ?L
      then obtain n where n: "n < length (l # rest)" "ownsLine b p ((l # rest) ! n)"
        "\<forall>k<n. \<forall>q. \<not> ownsLine b q ((l # rest) ! k)" by blast
      with no obtain n' where n': "n = Suc n'" by (cases n) auto
      have "\<forall>k<n'. \<forall>q. \<not> ownsLine b q (rest ! k)"
        using n(3) n' by (metis Suc_less_eq nth_Cons_Suc)
      with n n' show ?R by auto
    next
      assume ?R
      then obtain n where n: "n < length rest" "ownsLine b p (rest ! n)"
        "\<forall>k<n. \<forall>q. \<not> ownsLine b q (rest ! k)" by blast
      have "\<forall>k<Suc n. \<forall>q. \<not> ownsLine b q ((l # rest) ! k)"
        using n(3) no by (auto simp: nth_Cons split: nat.splits)
      with n show ?L by (intro exI [of _ "Suc n"]) simp
    qed
    with None Cons.IH show ?thesis by simp
  next
    case (Some q0)
    then have own: "ownsLine b q0 l" by (simp add: lineMatch_Some)
    have "(\<exists>n<length (l # rest). ownsLine b p ((l # rest) ! n) \<and>
             (\<forall>k<n. \<forall>q. \<not> ownsLine b q ((l # rest) ! k))) \<longleftrightarrow> p = q0"
      (is "?L \<longleftrightarrow> _")
    proof
      assume ?L
      then obtain n where n: "ownsLine b p ((l # rest) ! n)"
        "\<forall>k<n. \<forall>q. \<not> ownsLine b q ((l # rest) ! k)" by blast
      have "n = 0"
      proof (rule ccontr)
        assume "n \<noteq> 0"
        then have "0 < n" by simp
        with n(2) own show False by fastforce
      qed
      with n(1) own show "p = q0" by (auto dest: ownsLine_unique)
    next
      assume "p = q0"
      with own show ?L by (intro exI [of _ 0]) simp
    qed
    with Some show ?thesis by auto
  qed
qed

lemma winnerLoop_None:
  "winnerLoop b ls = None \<longleftrightarrow> (\<forall>n<length ls. \<forall>q. \<not> ownsLine b q (ls ! n))"
proof (induction ls)
  case Nil
  then show ?case by simp
next
  case (Cons l rest)
  have "winnerLoop b (l # rest) = None \<longleftrightarrow> lineMatch b l = None \<and> winnerLoop b rest = None"
    by (simp split: option.splits)
  then show ?case
    by (simp add: Cons.IH lineMatch_None All_less_Suc2)
qed

lemma length_lines: "length lines = 8"
  by (simp add: lines_def)

lemma typed_cell:
  assumes "typed b" and "i < length b"
  shows "get b i \<noteq> Null \<longleftrightarrow> (\<exists>q. get b i = Mark q)"
proof -
  from assms have "b ! i \<noteq> Undefined"
    unfolding typed_def by (metis nth_mem)
  with assms(2) show ?thesis
    by (cases "b ! i") (simp_all add: get_def)
qed

subsection \<open>Relabelling\<close>

lemma get_swapBoard: "get (swapBoard b) i = swapCell (get b i)"
  by (simp add: get_def swapBoard_def)

lemma swapPlayer_eq: "swapPlayer p = swapPlayer q \<longleftrightarrow> p = q"
  by (cases p; cases q) simp_all

lemma swapCell_Mark:
  "swapCell c = Mark (swapPlayer p) \<longleftrightarrow> c = Mark p"
  "Mark (swapPlayer p) = swapCell c \<longleftrightarrow> c = Mark p"
  by (cases c; auto simp: swapPlayer_eq)+

lemma swapCell_Null: "swapCell c = Null \<longleftrightarrow> c = Null"
  by (cases c) auto

lemma lineMatch_swapBoard:
  "lineMatch (swapBoard b) l = map_option swapPlayer (lineMatch b l)"
proof (cases l)
  case (fields x y z)
  show ?thesis
    by (cases "get b x") (auto simp: fields lineMatch_def get_swapBoard swapCell_Mark)
qed

lemma winnerLoop_swapBoard:
  "winnerLoop (swapBoard b) ls = map_option swapPlayer (winnerLoop b ls)"
  by (induction ls) (auto simp: lineMatch_swapBoard split: option.splits)

lemma everyNonNull_swapBoard: "everyNonNull (swapBoard b) = everyNonNull b"
  by (simp add: everyNonNull_def swapBoard_def list_all_iff swapCell_Null)

section \<open>Evaluation rules for 9-cell boards\<close>

text \<open>
  Equations that let the simplifier run \<open>minimax\<close> on a concrete board of 9 cells: one
  for the head of the function, and for each index of the loop one for an empty cell
  with O to move, one for an empty cell with X to move, and one for a cell that holds
  a mark.
\<close>

lemma minimaxValue_decide:
  "minimaxValue m b = decide m (calculateWinner b) (nonNull b) b"
proof -
  have "everyNonNull b = nonNull b"
    unfolding everyNonNull_def by (induction b rule: nonNull.induct) simp_all
  then show ?thesis
    unfolding minimaxValue_def decide_def
    by (subst minimax.simps) (simp split: option.splits Player.splits)
qed

lemma decide_rules:
  "decide m (Some PlayerX) full b = - 10"
  "decide m (Some PlayerO) full b = 10"
  "decide m None True b = 0"
  "decide True None False b = loopValue True 0 (Best NegInfinity (- 1)) b"
  "decide False None False b = loopValue False 0 (Best PosInfinity (- 1)) b"
  by (simp_all add: decide_def)

lemma keepBest_rules:
  "keepBest True s i (Best NegInfinity bm) = Best (Fin s) i"
  "keepBest True s i (Best (Fin t) bm) = (if t < s then Best (Fin s) i else Best (Fin t) bm)"
  "keepBest False s i (Best PosInfinity bm) = Best (Fin s) i"
  "keepBest False s i (Best (Fin t) bm) = (if s < t then Best (Fin s) i else Best (Fin t) bm)"
  by (simp_all add: better_def)

lemma lineMatch_line3:
  "lineMatch b (x, y, z) = line3 (get b x) (get b y) (get b z)"
proof -
  have "(case c of Mark p \<Rightarrow> if c = d \<and> c = e then Some p else None | _ \<Rightarrow> None)
          = line3 c d e" for c d e
    by (induction c d e rule: line3.induct) (auto split: Cell.splits)
  then show ?thesis by (simp add: lineMatch_def)
qed

lemma calculateWinner_9:
  "calculateWinner [c0, c1, c2, c3, c4, c5, c6, c7, c8] =
     orElse (line3 c0 c1 c2)
       (orElse (line3 c3 c4 c5)
       (orElse (line3 c6 c7 c8)
       (orElse (line3 c0 c3 c6)
       (orElse (line3 c1 c4 c7)
       (orElse (line3 c2 c5 c8)
       (orElse (line3 c0 c4 c8)
       (line3 c2 c4 c6)))))))"
  by (simp add: calculateWinner_def lines_def lineMatch_line3 get_def split: option.splits)

lemma loopValue_step:
  "loopValue m i a b =
     (if i < length b then
        (if get b i = Null
         then loopValue m (i + 1)
                (keepBest m (minimaxValue (\<not> m) (put b i (Mark (mover m)))) (int i) a) b
         else loopValue m (i + 1) a b)
      else (case a of Best bs bm \<Rightarrow> bm))"
proof (cases a)
  case (Best bs bm)
  show ?thesis
    unfolding Best
    by (simp add: minimaxLoop_step [of b m i] childScore_def minimaxValue_def)
qed

lemma loopValue_O0:
  "loopValue True 0 a [Null, c1, c2, c3, c4, c5, c6, c7, c8] =
     loopValue True 1 (keepBest True (minimaxValue False [Mark PlayerO, c1, c2, c3, c4, c5, c6, c7, c8]) 0 a)
       [Null, c1, c2, c3, c4, c5, c6, c7, c8]"
  by (subst loopValue_step) (simp add: get_def put_def mover_def)

lemma loopValue_O1:
  "loopValue True 1 a [c0, Null, c2, c3, c4, c5, c6, c7, c8] =
     loopValue True 2 (keepBest True (minimaxValue False [c0, Mark PlayerO, c2, c3, c4, c5, c6, c7, c8]) 1 a)
       [c0, Null, c2, c3, c4, c5, c6, c7, c8]"
  by (subst loopValue_step) (simp add: get_def put_def mover_def numeral_2_eq_2)

lemma loopValue_O2:
  "loopValue True 2 a [c0, c1, Null, c3, c4, c5, c6, c7, c8] =
     loopValue True 3 (keepBest True (minimaxValue False [c0, c1, Mark PlayerO, c3, c4, c5, c6, c7, c8]) 2 a)
       [c0, c1, Null, c3, c4, c5, c6, c7, c8]"
  by (subst loopValue_step) (simp add: get_def put_def mover_def)

lemma loopValue_O3:
  "loopValue True 3 a [c0, c1, c2, Null, c4, c5, c6, c7, c8] =
     loopValue True 4 (keepBest True (minimaxValue False [c0, c1, c2, Mark PlayerO, c4, c5, c6, c7, c8]) 3 a)
       [c0, c1, c2, Null, c4, c5, c6, c7, c8]"
  by (subst loopValue_step) (simp add: get_def put_def mover_def)

lemma loopValue_O4:
  "loopValue True 4 a [c0, c1, c2, c3, Null, c5, c6, c7, c8] =
     loopValue True 5 (keepBest True (minimaxValue False [c0, c1, c2, c3, Mark PlayerO, c5, c6, c7, c8]) 4 a)
       [c0, c1, c2, c3, Null, c5, c6, c7, c8]"
  by (subst loopValue_step) (simp add: get_def put_def mover_def)

lemma loopValue_O5:
  "loopValue True 5 a [c0, c1, c2, c3, c4, Null, c6, c7, c8] =
     loopValue True 6 (keepBest True (minimaxValue False [c0, c1, c2, c3, c4, Mark PlayerO, c6, c7, c8]) 5 a)
       [c0, c1, c2, c3, c4, Null, c6, c7, c8]"
  by (subst loopValue_step) (simp add: get_def put_def mover_def)

lemma loopValue_O6:
  "loopValue True 6 a [c0, c1, c2, c3, c4, c5, Null, c7, c8] =
     loopValue True 7 (keepBest True (minimaxValue False [c0, c1, c2, c3, c4, c5, Mark PlayerO, c7, c8]) 6 a)
       [c0, c1, c2, c3, c4, c5, Null, c7, c8]"
  by (subst loopValue_step) (simp add: get_def put_def mover_def)

lemma loopValue_O7:
  "loopValue True 7 a [c0, c1, c2, c3, c4, c5, c6, Null, c8] =
     loopValue True 8 (keepBest True (minimaxValue False [c0, c1, c2, c3, c4, c5, c6, Mark PlayerO, c8]) 7 a)
       [c0, c1, c2, c3, c4, c5, c6, Null, c8]"
  by (subst loopValue_step) (simp add: get_def put_def mover_def)

lemma loopValue_O8:
  "loopValue True 8 a [c0, c1, c2, c3, c4, c5, c6, c7, Null] =
     loopValue True 9 (keepBest True (minimaxValue False [c0, c1, c2, c3, c4, c5, c6, c7, Mark PlayerO]) 8 a)
       [c0, c1, c2, c3, c4, c5, c6, c7, Null]"
  by (subst loopValue_step) (simp add: get_def put_def mover_def)

lemmas loopValue_O =
  loopValue_O0 loopValue_O1 loopValue_O2 loopValue_O3 loopValue_O4 loopValue_O5 loopValue_O6 loopValue_O7 loopValue_O8

lemma loopValue_X0:
  "loopValue False 0 a [Null, c1, c2, c3, c4, c5, c6, c7, c8] =
     loopValue False 1 (keepBest False (minimaxValue True [Mark PlayerX, c1, c2, c3, c4, c5, c6, c7, c8]) 0 a)
       [Null, c1, c2, c3, c4, c5, c6, c7, c8]"
  by (subst loopValue_step) (simp add: get_def put_def mover_def)

lemma loopValue_X1:
  "loopValue False 1 a [c0, Null, c2, c3, c4, c5, c6, c7, c8] =
     loopValue False 2 (keepBest False (minimaxValue True [c0, Mark PlayerX, c2, c3, c4, c5, c6, c7, c8]) 1 a)
       [c0, Null, c2, c3, c4, c5, c6, c7, c8]"
  by (subst loopValue_step) (simp add: get_def put_def mover_def numeral_2_eq_2)

lemma loopValue_X2:
  "loopValue False 2 a [c0, c1, Null, c3, c4, c5, c6, c7, c8] =
     loopValue False 3 (keepBest False (minimaxValue True [c0, c1, Mark PlayerX, c3, c4, c5, c6, c7, c8]) 2 a)
       [c0, c1, Null, c3, c4, c5, c6, c7, c8]"
  by (subst loopValue_step) (simp add: get_def put_def mover_def)

lemma loopValue_X3:
  "loopValue False 3 a [c0, c1, c2, Null, c4, c5, c6, c7, c8] =
     loopValue False 4 (keepBest False (minimaxValue True [c0, c1, c2, Mark PlayerX, c4, c5, c6, c7, c8]) 3 a)
       [c0, c1, c2, Null, c4, c5, c6, c7, c8]"
  by (subst loopValue_step) (simp add: get_def put_def mover_def)

lemma loopValue_X4:
  "loopValue False 4 a [c0, c1, c2, c3, Null, c5, c6, c7, c8] =
     loopValue False 5 (keepBest False (minimaxValue True [c0, c1, c2, c3, Mark PlayerX, c5, c6, c7, c8]) 4 a)
       [c0, c1, c2, c3, Null, c5, c6, c7, c8]"
  by (subst loopValue_step) (simp add: get_def put_def mover_def)

lemma loopValue_X5:
  "loopValue False 5 a [c0, c1, c2, c3, c4, Null, c6, c7, c8] =
     loopValue False 6 (keepBest False (minimaxValue True [c0, c1, c2, c3, c4, Mark PlayerX, c6, c7, c8]) 5 a)
       [c0, c1, c2, c3, c4, Null, c6, c7, c8]"
  by (subst loopValue_step) (simp add: get_def put_def mover_def)

lemma loopValue_X6:
  "loopValue False 6 a [c0, c1, c2, c3, c4, c5, Null, c7, c8] =
     loopValue False 7 (keepBest False (minimaxValue True [c0, c1, c2, c3, c4, c5, Mark PlayerX, c7, c8]) 6 a)
       [c0, c1, c2, c3, c4, c5, Null, c7, c8]"
  by (subst loopValue_step) (simp add: get_def put_def mover_def)

lemma loopValue_X7:
  "loopValue False 7 a [c0, c1, c2, c3, c4, c5, c6, Null, c8] =
     loopValue False 8 (keepBest False (minimaxValue True [c0, c1, c2, c3, c4, c5, c6, Mark PlayerX, c8]) 7 a)
       [c0, c1, c2, c3, c4, c5, c6, Null, c8]"
  by (subst loopValue_step) (simp add: get_def put_def mover_def)

lemma loopValue_X8:
  "loopValue False 8 a [c0, c1, c2, c3, c4, c5, c6, c7, Null] =
     loopValue False 9 (keepBest False (minimaxValue True [c0, c1, c2, c3, c4, c5, c6, c7, Mark PlayerX]) 8 a)
       [c0, c1, c2, c3, c4, c5, c6, c7, Null]"
  by (subst loopValue_step) (simp add: get_def put_def mover_def)

lemmas loopValue_X =
  loopValue_X0 loopValue_X1 loopValue_X2 loopValue_X3 loopValue_X4 loopValue_X5 loopValue_X6 loopValue_X7 loopValue_X8

lemma loopValue_Mark0:
  "loopValue m 0 a [Mark p, c1, c2, c3, c4, c5, c6, c7, c8] = loopValue m 1 a [Mark p, c1, c2, c3, c4, c5, c6, c7, c8]"
  by (subst loopValue_step) (simp add: get_def put_def mover_def)

lemma loopValue_Mark1:
  "loopValue m 1 a [c0, Mark p, c2, c3, c4, c5, c6, c7, c8] = loopValue m 2 a [c0, Mark p, c2, c3, c4, c5, c6, c7, c8]"
  by (subst loopValue_step) (simp add: get_def put_def mover_def numeral_2_eq_2)

lemma loopValue_Mark2:
  "loopValue m 2 a [c0, c1, Mark p, c3, c4, c5, c6, c7, c8] = loopValue m 3 a [c0, c1, Mark p, c3, c4, c5, c6, c7, c8]"
  by (subst loopValue_step) (simp add: get_def put_def mover_def)

lemma loopValue_Mark3:
  "loopValue m 3 a [c0, c1, c2, Mark p, c4, c5, c6, c7, c8] = loopValue m 4 a [c0, c1, c2, Mark p, c4, c5, c6, c7, c8]"
  by (subst loopValue_step) (simp add: get_def put_def mover_def)

lemma loopValue_Mark4:
  "loopValue m 4 a [c0, c1, c2, c3, Mark p, c5, c6, c7, c8] = loopValue m 5 a [c0, c1, c2, c3, Mark p, c5, c6, c7, c8]"
  by (subst loopValue_step) (simp add: get_def put_def mover_def)

lemma loopValue_Mark5:
  "loopValue m 5 a [c0, c1, c2, c3, c4, Mark p, c6, c7, c8] = loopValue m 6 a [c0, c1, c2, c3, c4, Mark p, c6, c7, c8]"
  by (subst loopValue_step) (simp add: get_def put_def mover_def)

lemma loopValue_Mark6:
  "loopValue m 6 a [c0, c1, c2, c3, c4, c5, Mark p, c7, c8] = loopValue m 7 a [c0, c1, c2, c3, c4, c5, Mark p, c7, c8]"
  by (subst loopValue_step) (simp add: get_def put_def mover_def)

lemma loopValue_Mark7:
  "loopValue m 7 a [c0, c1, c2, c3, c4, c5, c6, Mark p, c8] = loopValue m 8 a [c0, c1, c2, c3, c4, c5, c6, Mark p, c8]"
  by (subst loopValue_step) (simp add: get_def put_def mover_def)

lemma loopValue_Mark8:
  "loopValue m 8 a [c0, c1, c2, c3, c4, c5, c6, c7, Mark p] = loopValue m 9 a [c0, c1, c2, c3, c4, c5, c6, c7, Mark p]"
  by (subst loopValue_step) (simp add: get_def put_def mover_def)

lemmas loopValue_Mark =
  loopValue_Mark0 loopValue_Mark1 loopValue_Mark2 loopValue_Mark3 loopValue_Mark4 loopValue_Mark5 loopValue_Mark6 loopValue_Mark7 loopValue_Mark8

lemma loopValue_end:
  "loopValue m 9 (Best bs bm) [c0, c1, c2, c3, c4, c5, c6, c7, c8] = bm"
  by (subst loopValue_step) simp

lemmas eval9 =
  minimaxValue_decide decide_rules keepBest_rules calculateWinner_9 line3.simps orElse.simps
  nonNull.simps loopValue_O loopValue_X loopValue_Mark loopValue_end
  if_True if_False rel_simps simp_thms

lemmas eval9_inner =
  decide_rules keepBest_rules calculateWinner_9 line3.simps orElse.simps
  nonNull.simps loopValue_O loopValue_X loopValue_Mark loopValue_end
  if_True if_False rel_simps simp_thms

subsection \<open>The game the selector plays against itself\<close>

text \<open>
  What \<open>minimax\<close> returns for O after each of the nine first placements of X, and from
  these what it returns for X on the empty board; then the replies along the game.
\<close>
lemma afterX0: "minimaxValue True [Mark PlayerX, Null, Null, Null, Null, Null, Null, Null, Null] = 1"
  by (simp only: eval9)

lemma afterX1: "minimaxValue True [Null, Mark PlayerX, Null, Null, Null, Null, Null, Null, Null] = 2"
  by (simp only: eval9)

lemma afterX2: "minimaxValue True [Null, Null, Mark PlayerX, Null, Null, Null, Null, Null, Null] = 1"
  by (simp only: eval9)

lemma afterX3: "minimaxValue True [Null, Null, Null, Mark PlayerX, Null, Null, Null, Null, Null] = 1"
  by (simp only: eval9)

lemma afterX4: "minimaxValue True [Null, Null, Null, Null, Mark PlayerX, Null, Null, Null, Null] = 1"
  by (simp only: eval9)

lemma afterX5: "minimaxValue True [Null, Null, Null, Null, Null, Mark PlayerX, Null, Null, Null] = 2"
  by (simp only: eval9)

lemma afterX6: "minimaxValue True [Null, Null, Null, Null, Null, Null, Mark PlayerX, Null, Null] = 0"
  by (simp only: eval9)

lemma afterX7: "minimaxValue True [Null, Null, Null, Null, Null, Null, Null, Mark PlayerX, Null] = 2"
  by (simp only: eval9)

lemma afterX8: "minimaxValue True [Null, Null, Null, Null, Null, Null, Null, Null, Mark PlayerX] = 2"
  by (simp only: eval9)

lemma openingMove: "minimaxValue False [Null, Null, Null, Null, Null, Null, Null, Null, Null] = 6"
  by (subst minimaxValue_decide)
     (simp only: afterX0 afterX1 afterX2 afterX3 afterX4 afterX5 afterX6 afterX7 afterX8
        eval9_inner)

lemma reply3: "minimaxValue False [Mark PlayerO, Null, Null, Null, Null, Null, Mark PlayerX, Null, Null] = 7"
  by (simp only: eval9)

lemma reply4: "minimaxValue True [Mark PlayerO, Null, Null, Null, Null, Null, Mark PlayerX, Mark PlayerX, Null] = 1"
  by (simp only: eval9)

lemma reply5: "minimaxValue False [Mark PlayerO, Mark PlayerO, Null, Null, Null, Null, Mark PlayerX, Mark PlayerX, Null] = 8"
  by (simp only: eval9)

section \<open>Claims\<close>

text \<open>
  C1. The claim that the returned cell has the best game-theoretic score fails on
  \<open>threatBoard\<close> with O to move. Cell 5 loses (score -10: X completes the bottom row
  at 7) and cell 7 draws (score 0, the score of the board), yet \<open>selectMove\<close> returns 5:
  the numbers the loop compares for cells 5 and 7 are 7 and 5, the cell indices the
  recursive calls return, not the scores -10 and 0.
\<close>

theorem selectMove_misses_block:
  "evaluate threatBoard = IN_PROGRESS
   \<and> selectMove threatBoard PlayerO = 5
   \<and> gameValue (put threatBoard 5 (Mark PlayerO)) False = - 10
   \<and> gameValue (put threatBoard 7 (Mark PlayerO)) False = 0
   \<and> gameValue threatBoard True = 0
   \<and> childScore threatBoard True 5 = 7
   \<and> childScore threatBoard True 7 = 5"
  by code_simp

text \<open>
  C2. The claim that self-play from the empty board ends in a draw fails. With X moving
  first and \<open>selectMove\<close> choosing every move, the game runs X: 6, O: 0, X: 7, O: 1,
  X: 8: O never blocks the bottom row, and the final board is a win for X.
\<close>

theorem selfPlay_first_mover_wins:
  "selfPlay emptyBoard PlayerX
     = [Mark PlayerO, Mark PlayerO, Null, Null, Null, Null, Mark PlayerX, Mark PlayerX, Mark PlayerX]
   \<and> evaluate (selfPlay emptyBoard PlayerX) = WIN PlayerX"
proof -
  let ?b0 = "[Null, Null, Null, Null, Null, Null, Null, Null, Null]"
  let ?b1 = "[Null, Null, Null, Null, Null, Null, Mark PlayerX, Null, Null]"
  let ?b2 = "[Mark PlayerO, Null, Null, Null, Null, Null, Mark PlayerX, Null, Null]"
  let ?b3 = "[Mark PlayerO, Null, Null, Null, Null, Null, Mark PlayerX, Mark PlayerX, Null]"
  let ?b4 = "[Mark PlayerO, Mark PlayerO, Null, Null, Null, Null, Mark PlayerX, Mark PlayerX, Null]"
  let ?b5 = "[Mark PlayerO, Mark PlayerO, Null, Null, Null, Null, Mark PlayerX, Mark PlayerX, Mark PlayerX]"
  have e0: "evaluate ?b0 = IN_PROGRESS" by code_simp
  have e1: "evaluate ?b1 = IN_PROGRESS" by code_simp
  have e2: "evaluate ?b2 = IN_PROGRESS" by code_simp
  have e3: "evaluate ?b3 = IN_PROGRESS" by code_simp
  have e4: "evaluate ?b4 = IN_PROGRESS" by code_simp
  have e5: "evaluate ?b5 = WIN PlayerX" by code_simp
  have "selfPlay emptyBoard PlayerX = selfPlay ?b0 PlayerX"
    by (simp only: emptyBoard_cells)
  also have "\<dots> = selfPlay ?b1 PlayerO"
    using selfPlay_step [OF e0, of PlayerX 6] by (simp add: selectMove_minimaxValue openingMove)
  also have "\<dots> = selfPlay ?b2 PlayerX"
    using selfPlay_step [OF e1, of PlayerO 0] by (simp add: selectMove_minimaxValue afterX6)
  also have "\<dots> = selfPlay ?b3 PlayerO"
    using selfPlay_step [OF e2, of PlayerX 7] by (simp add: selectMove_minimaxValue reply3)
  also have "\<dots> = selfPlay ?b4 PlayerX"
    using selfPlay_step [OF e3, of PlayerO 1] by (simp add: selectMove_minimaxValue reply4)
  also have "\<dots> = selfPlay ?b5 PlayerO"
    using selfPlay_step [OF e4, of PlayerX 8] by (simp add: selectMove_minimaxValue reply5)
  also have "\<dots> = ?b5"
    using selfPlay_stop [of ?b5 PlayerO] e5 by simp
  finally have "selfPlay emptyBoard PlayerX = ?b5" .
  with e5 show ?thesis by simp
qed

text \<open>
  C3. On the board \<^verbatim>\<open>[X,X,_, O,O,_, _,_,_]\<close> with X to move, \<open>selectMove\<close> returns
  index 2, the cell that completes the top row.
\<close>

theorem selectMove_completes_top_row:
  "selectMove [Mark PlayerX, Mark PlayerX, Null,
               Mark PlayerO, Mark PlayerO, Null,
               Null, Null, Null] PlayerX = 2"
  by code_simp

text \<open>
  C4. On a typed board of 9 cells, \<open>evaluate\<close> returns \<open>WIN p\<close> exactly when some line,
  in the fixed order of \<open>lines\<close>, has its three cells held by \<open>p\<close> and no earlier line
  is held by either mark; it returns \<open>DRAW\<close> exactly when no line is held and every
  cell holds a mark; it returns \<open>IN_PROGRESS\<close> exactly when no line is held and some
  cell is empty. So the win test comes before the full-board test.
\<close>

theorem evaluate_outcome:
  assumes "length b = 9" and "typed b"
  shows "(evaluate b = WIN p \<longleftrightarrow>
            (\<exists>n<8. ownsLine b p (lines ! n) \<and> (\<forall>k<n. \<forall>q. \<not> ownsLine b q (lines ! k))))
       \<and> (evaluate b = DRAW \<longleftrightarrow>
            (\<forall>n<8. \<forall>q. \<not> ownsLine b q (lines ! n)) \<and> (\<forall>i<9. \<exists>q. get b i = Mark q))
       \<and> (evaluate b = IN_PROGRESS \<longleftrightarrow>
            (\<forall>n<8. \<forall>q. \<not> ownsLine b q (lines ! n)) \<and> (\<exists>i<9. get b i = Null))
       \<and> lines = [(0, 1, 2), (3, 4, 5), (6, 7, 8), (0, 3, 6), (1, 4, 7), (2, 5, 8),
                   (0, 4, 8), (2, 4, 6)]"
proof -
  have full: "everyNonNull b \<longleftrightarrow> (\<forall>i<9. \<exists>q. get b i = Mark q)"
    using assms typed_cell [of b] by (auto simp: everyNonNull_iff)
  have notfull: "\<not> everyNonNull b \<longleftrightarrow> (\<exists>i<9. get b i = Null)"
    using assms by (auto simp: everyNonNull_iff)
  have win: "evaluate b = WIN p \<longleftrightarrow> calculateWinner b = Some p"
    by (auto simp: evaluate_def split: option.splits)
  have draw: "evaluate b = DRAW \<longleftrightarrow> calculateWinner b = None \<and> everyNonNull b"
    by (auto simp: evaluate_def split: option.splits)
  have lines8: "lines = [(0, 1, 2), (3, 4, 5), (6, 7, 8), (0, 3, 6), (1, 4, 7), (2, 5, 8),
                   (0, 4, 8), (2, 4, 6)]"
    by (simp add: lines_def)
  have none: "calculateWinner b = None \<longleftrightarrow> (\<forall>n<8. \<forall>q. \<not> ownsLine b q (lines ! n))"
    by (simp add: calculateWinner_def winnerLoop_None length_lines)
  have some: "calculateWinner b = Some p \<longleftrightarrow>
      (\<exists>n<8. ownsLine b p (lines ! n) \<and> (\<forall>k<n. \<forall>q. \<not> ownsLine b q (lines ! k)))"
    by (simp add: calculateWinner_def winnerLoop_Some length_lines)
  have c1: "evaluate b = WIN p \<longleftrightarrow>
      (\<exists>n<8. ownsLine b p (lines ! n) \<and> (\<forall>k<n. \<forall>q. \<not> ownsLine b q (lines ! k)))"
    unfolding win some ..
  have c2: "evaluate b = DRAW \<longleftrightarrow>
      (\<forall>n<8. \<forall>q. \<not> ownsLine b q (lines ! n)) \<and> (\<forall>i<9. \<exists>q. get b i = Mark q)"
    unfolding draw none full ..
  have c3: "evaluate b = IN_PROGRESS \<longleftrightarrow>
      (\<forall>n<8. \<forall>q. \<not> ownsLine b q (lines ! n)) \<and> (\<exists>i<9. get b i = Null)"
    unfolding in_progress_iff none notfull ..
  from c1 c2 c3 lines8 show ?thesis by (intro conjI)
qed

text \<open>
  On \<open>bothLinesBoard\<close> O holds the second line, and the outcome is the win of X, whose
  line comes first.
\<close>

theorem evaluate_outcome_witness:
  "length bothLinesBoard = 9 \<and> typed bothLinesBoard
   \<and> evaluate bothLinesBoard = WIN PlayerX
   \<and> ownsLine bothLinesBoard PlayerO (lines ! 1)
   \<and> (\<exists>n<8. ownsLine bothLinesBoard PlayerX (lines ! n)
          \<and> (\<forall>k<n. \<forall>q. \<not> ownsLine bothLinesBoard q (lines ! k)))"
proof -
  have len: "length bothLinesBoard = 9" by (simp add: bothLinesBoard_def)
  have ty: "typed bothLinesBoard" by (simp add: bothLinesBoard_def typed_def)
  have win: "evaluate bothLinesBoard = WIN PlayerX" by code_simp
  have o: "ownsLine bothLinesBoard PlayerO (lines ! 1)" by code_simp
  from evaluate_outcome [OF len ty, of PlayerX] win len ty o
  show ?thesis by blast
qed

text \<open>
  C5. On a board of 9 cells that is in progress (so that it has an empty cell), the
  index \<open>selectMove\<close> returns lies in 0..8 and the cell at that index is empty in the
  input board.
\<close>

theorem selectMove_returns_empty_cell:
  assumes "length b = 9" and "evaluate b = IN_PROGRESS"
  shows "0 \<le> selectMove b sideToMove \<and> selectMove b sideToMove \<le> 8
         \<and> get b (nat (selectMove b sideToMove)) = Null"
proof -
  from minimax_spec [OF assms(2), of "sideToMove = PlayerO"]
  obtain k where "selectMove b sideToMove = int k" "k < length b" "get b k = Null"
    unfolding selectMove_def by blast
  with assms(1) show ?thesis by simp
qed

text \<open>The precondition holds on \<open>threatBoard\<close>, and the theorem applies there.\<close>

theorem selectMove_returns_empty_cell_witness:
  "length threatBoard = 9 \<and> evaluate threatBoard = IN_PROGRESS
   \<and> 0 \<le> selectMove threatBoard PlayerO \<and> selectMove threatBoard PlayerO \<le> 8
   \<and> get threatBoard (nat (selectMove threatBoard PlayerO)) = Null"
proof -
  have len: "length threatBoard = 9" by (simp add: threatBoard_def)
  have pre: "evaluate threatBoard = IN_PROGRESS" by code_simp
  from selectMove_returns_empty_cell [OF len pre, of PlayerO] len pre
  show ?thesis by blast
qed

text \<open>
  C6. After \<open>selectMove\<close> returns, every cell of the caller's board holds the value it
  held before the call: each placement of the search is undone on every path. This
  holds for every board, whether or not it meets the precondition.
\<close>

theorem selectMove_leaves_board_unchanged:
  "boardAfterSelectMove b sideToMove = b"
  by (simp add: boardAfterSelectMove_def minimax_board)

text \<open>
  C7. The claim that \<open>selectMove\<close> returns the lowest cell among those with the equal
  best recursive score fails on \<open>tieBoard\<close> with O to move. Cells 3 and 8 both have the
  best game-theoretic score, 10 (cells 4 and 7 score -10), so the lowest best cell is
  3; \<open>selectMove\<close> returns 8. The numbers the loop compares are 7 for cell 3 (the index
  the recursive call returns) and 10 for cell 8 (a terminal board), so cell 3 is not
  even a tie for the loop.
\<close>

theorem selectMove_not_lowest_of_best:
  "evaluate tieBoard = IN_PROGRESS
   \<and> gameBest tieBoard True 3
   \<and> gameBest tieBoard True 8
   \<and> gameValue (put tieBoard 3 (Mark PlayerO)) False = 10
   \<and> gameValue (put tieBoard 4 (Mark PlayerO)) False = - 10
   \<and> gameValue (put tieBoard 7 (Mark PlayerO)) False = - 10
   \<and> gameValue (put tieBoard 8 (Mark PlayerO)) False = 10
   \<and> selectMove tieBoard PlayerO = 8
   \<and> childScore tieBoard True 3 = 7
   \<and> childScore tieBoard True 8 = 10"
  by code_simp

text \<open>
  C8. Swapping the two marks on a board commutes with \<open>evaluate\<close>: the outcome of the
  swapped board is the outcome of the board with the mark of a win swapped, and
  \<open>IN_PROGRESS\<close> and \<open>DRAW\<close> map to themselves. This holds for every board.
\<close>

theorem evaluate_swapBoard:
  "evaluate (swapBoard b) = swapOutcome (evaluate b)"
  by (simp add: evaluate_def calculateWinner_def winnerLoop_swapBoard everyNonNull_swapBoard
           split: option.splits)

text \<open>
  C9. When a placement fills the last empty cell without completing a line, the session
  is left with the board of 9 empty cells, X to move, no winner, and the scores it had:
  in \<open>handleClick\<close> for a click on an empty cell while no winner is recorded (and no
  computer move is scheduled), and in \<open>aiMove\<close> for the computer's placement. The
  board of the reset, \<open>emptyBoard\<close>, is \<^verbatim>\<open>Array(9).fill(null)\<close>.
\<close>

theorem draw_resets_board:
  "(\<not> truthy (get (board s) index) \<and> winner s = None
      \<and> evaluate (put (board s) index (Mark (if xIsNext s then PlayerX else PlayerO))) = DRAW
    \<longrightarrow> handleClick s index
          = (s\<lparr>board := replicate 9 Null, xIsNext := True, winner := None\<rparr>, None)
        \<and> scores (fst (handleClick s index)) = scores s
        \<and> winner (fst (handleClick s index)) = None)
   \<and> (evaluate (putAt nb (selectMove nb PlayerO) (Mark PlayerO)) = DRAW
    \<longrightarrow> aiMove t nb = t\<lparr>board := replicate 9 Null, xIsNext := True, winner := None\<rparr>
        \<and> scores (aiMove t nb) = scores t
        \<and> winner (aiMove t nb) = None)
   \<and> emptyBoard = replicate 9 Null"
proof -
  have draw: "evaluate c = DRAW \<longleftrightarrow> calculateWinner c = None \<and> everyNonNull c" for c
    by (auto simp: evaluate_def split: option.splits)
  show ?thesis
    by (auto simp: draw handleClick_def aiMove_def startNewGame_def Let_def selectMove_def
                   minimax_board emptyBoard_def)
qed

text \<open>
  Filling cell 8 of \<open>lastCellBoard\<close> with either mark is a draw; both handlers leave
  the board of 9 empty cells, and the scores and the winner are as before.
\<close>

theorem draw_resets_board_witness:
  "handleClick (initialState\<lparr>board := lastCellBoard\<rparr>) 8
     = (initialState\<lparr>board := [Null, Null, Null, Null, Null, Null, Null, Null, Null],
                     xIsNext := True, winner := None\<rparr>, None)
   \<and> aiMove (initialState\<lparr>board := lastCellBoard, xIsNext := False\<rparr>) lastCellBoard
     = initialState\<lparr>board := [Null, Null, Null, Null, Null, Null, Null, Null, Null],
                    xIsNext := True, winner := None\<rparr>
   \<and> scores (fst (handleClick (initialState\<lparr>board := lastCellBoard\<rparr>) 8)) = scores initialState
   \<and> winner (fst (handleClick (initialState\<lparr>board := lastCellBoard\<rparr>) 8)) = None"
proof -
  let ?s = "initialState\<lparr>board := lastCellBoard\<rparr>"
  let ?t = "initialState\<lparr>board := lastCellBoard, xIsNext := False\<rparr>"
  have a: "\<not> truthy (get (board ?s) 8)" by (simp add: lastCellBoard_def get_def)
  have b: "winner ?s = None" by (simp add: initialState_def)
  have x: "xIsNext ?s" by (simp add: initialState_def)
  have "evaluate (put lastCellBoard 8 (Mark PlayerX)) = DRAW" by code_simp
  with x have c: "evaluate (put (board ?s) 8 (Mark (if xIsNext ?s then PlayerX else PlayerO))) = DRAW"
    by simp
  have d: "evaluate (putAt lastCellBoard (selectMove lastCellBoard PlayerO) (Mark PlayerO)) = DRAW"
    by code_simp
  have nine: "replicate 9 Null = [Null, Null, Null, Null, Null, Null, Null, Null, Null :: Cell]"
    by (simp add: numeral_eq_Suc)
  from draw_resets_board [of ?s 8 lastCellBoard ?t] a b c d
  have h: "handleClick ?s 8 = (?s\<lparr>board := replicate 9 Null, xIsNext := True, winner := None\<rparr>, None)"
    and ai: "aiMove ?t lastCellBoard = ?t\<lparr>board := replicate 9 Null, xIsNext := True, winner := None\<rparr>"
    by blast+
  from h ai show ?thesis by (simp add: initialState_def nine)
qed

text \<open>
  C10. A click on a cell that holds a mark, or any click once a winner is recorded,
  changes nothing: the state is returned as it was and no computer move is scheduled.
\<close>

theorem handleClick_rejected:
  assumes "truthy (get (board s) index) \<or> winner s \<noteq> None"
  shows "handleClick s index = (s, None)"
  using assms by (simp add: handleClick_def)

text \<open>An occupied cell, and an empty cell after a win.\<close>

theorem handleClick_rejected_witness:
  "truthy (get (board (initialState\<lparr>board := lastCellBoard\<rparr>)) 0)
   \<and> handleClick (initialState\<lparr>board := lastCellBoard\<rparr>) 0
       = (initialState\<lparr>board := lastCellBoard\<rparr>, None)
   \<and> \<not> truthy (get (board (initialState\<lparr>board := bothLinesBoard, winner := Some PlayerX\<rparr>)) 8)
   \<and> winner (initialState\<lparr>board := bothLinesBoard, winner := Some PlayerX\<rparr>) \<noteq> None
   \<and> handleClick (initialState\<lparr>board := bothLinesBoard, winner := Some PlayerX\<rparr>) 8
       = (initialState\<lparr>board := bothLinesBoard, winner := Some PlayerX\<rparr>, None)"
proof -
  have a: "truthy (get (board (initialState\<lparr>board := lastCellBoard\<rparr>)) 0)"
    by (simp add: lastCellBoard_def get_def)
  have b: "\<not> truthy (get (board (initialState\<lparr>board := bothLinesBoard, winner := Some PlayerX\<rparr>)) 8)"
    by (simp add: bothLinesBoard_def get_def)
  have c: "winner (initialState\<lparr>board := bothLinesBoard, winner := Some PlayerX\<rparr>) \<noteq> None"
    by simp
  from handleClick_rejected [of "initialState\<lparr>board := lastCellBoard\<rparr>" 0]
       handleClick_rejected [of "initialState\<lparr>board := bothLinesBoard, winner := Some PlayerX\<rparr>" 8]
       a b c
  show ?thesis by blast
qed

end
